theory Spec2Isabelle
  imports Main "HOL-Library.AList"
begin

section \<open>The saga core: values, errors, console output\<close>

text \<open>
  The development embeds the four classes of the saga core (SagaContext, SagaStep, Saga,
  SagaOrchestrator). Objects are records, a method is a function from the object (and the
  other objects it mutates) to their updated values, a thrown error is the \<open>Threw\<close> branch
  of an outcome, and every \<open>console.log\<close> or \<open>console.error\<close> call is a line of the output
  the function returns.

  Conventions of the embedding:
  \<^item> Step actions and compensations are the caller's functions. They receive the context
    and either return a value or throw an \<open>Error\<close> object; their only effect on the context
    is through its key/value store (\<open>context.set\<close>), so a callback maps the context to its
    outcome paired with the new key/value store. Callbacks are taken to settle: a promise
    that never resolves has no counterpart here.
  \<^item> Wall-clock readings held by the context (\<open>startTime\<close>, \<open>endTime\<close>, the timestamp of
    a log entry) and the duration lines printed from them are left out; the random run
    identifier and the readings the orchestrator stores in a history entry are arguments.
  \<^item> The separator rules printed between sections of the console output are left out.
\<close>

datatype jsval =
    JUndefined
  | JNull
  | JBool bool
  | JNum int
  | JStr string
  | JObj "(string \<times> jsval) list"

datatype js_error = Error (message: string)

datatype 'a outcome = Returned 'a | Threw js_error

datatype status = PENDING | IN_PROGRESS | COMPLETED | FAILED | COMPENSATING | COMPENSATED

text \<open>One constructor for each message template of the four classes, with its interpolated values.\<close>

datatype log_line =
    Log_starting_saga string string
  | Log_saga_completed string
  | Log_saga_failed string string
  | Log_starting_compensation string
  | Log_compensation_error string string
  | Log_compensation_finished string
  | Log_executing_step string
  | Log_step_completed string
  | Log_step_failed string string
  | Log_skipping_compensation string
  | Log_no_compensation string
  | Log_compensating_step string
  | Log_compensation_completed string
  | Log_compensation_failed string string
  | Log_saga_registered string
  | Log_orchestrator_executing string
  | Log_orchestrator_failed string
  | Log_history_cleared


section \<open>SagaContext\<close>

record executed_entry =
  stepName :: string
  stepResult :: jsval

text \<open>
  \<open>statusTrail\<close> is a history variable: every assignment to \<open>this.status\<close> also appends the
  assigned value to it, so that it lists the status values the context has taken on.
\<close>

record saga_context =
  data :: "string \<rightharpoonup> jsval"
  executedSteps :: "executed_entry list"
  status :: status
  error :: "js_error option"
  sagaId :: string
  statusTrail :: "status list"

definition new_SagaContext :: "(string \<rightharpoonup> jsval) \<Rightarrow> string \<Rightarrow> saga_context" where
  "new_SagaContext initialData sid =
     \<lparr>data = initialData, executedSteps = [], status = PENDING, error = None,
      sagaId = sid, statusTrail = [PENDING]\<rparr>"

definition set_data :: "string \<Rightarrow> jsval \<Rightarrow> saga_context \<Rightarrow> saga_context" where
  "set_data key v c = c\<lparr>data := (data c)(key \<mapsto> v)\<rparr>"

text \<open>The parameter default \<open>result = {}\<close> replaces an undefined result by an empty object.\<close>

definition markStepExecuted :: "string \<Rightarrow> jsval \<Rightarrow> saga_context \<Rightarrow> saga_context" where
  "markStepExecuted nm r c =
     c\<lparr>executedSteps := executedSteps c @
          [\<lparr>stepName = nm, stepResult = (if r = JUndefined then JObj [] else r)\<rparr>]\<rparr>"

definition getExecutedSteps :: "saga_context \<Rightarrow> executed_entry list" where
  "getExecutedSteps c = executedSteps c"

definition setStatus :: "status \<Rightarrow> saga_context \<Rightarrow> saga_context" where
  "setStatus st c = c\<lparr>status := st, statusTrail := statusTrail c @ [st]\<rparr>"

definition getStatus :: "saga_context \<Rightarrow> status" where
  "getStatus c = status c"

definition setError :: "js_error option \<Rightarrow> saga_context \<Rightarrow> saga_context" where
  "setError e c = c\<lparr>error := e\<rparr>"

definition getError :: "saga_context \<Rightarrow> js_error option" where
  "getError c = error c"

definition markStarted :: "saga_context \<Rightarrow> saga_context" where
  "markStarted c = c\<lparr>status := IN_PROGRESS, statusTrail := statusTrail c @ [IN_PROGRESS]\<rparr>"

definition markCompleted :: "saga_context \<Rightarrow> saga_context" where
  "markCompleted c = c\<lparr>status := COMPLETED, statusTrail := statusTrail c @ [COMPLETED]\<rparr>"

definition markFailed :: "js_error \<Rightarrow> saga_context \<Rightarrow> saga_context" where
  "markFailed e c =
     c\<lparr>status := FAILED, statusTrail := statusTrail c @ [FAILED], error := Some e\<rparr>"

definition markCompensating :: "saga_context \<Rightarrow> saga_context" where
  "markCompensating c =
     c\<lparr>status := COMPENSATING, statusTrail := statusTrail c @ [COMPENSATING]\<rparr>"

definition markCompensated :: "saga_context \<Rightarrow> saga_context" where
  "markCompensated c =
     c\<lparr>status := COMPENSATED, statusTrail := statusTrail c @ [COMPENSATED]\<rparr>"


section \<open>SagaStep\<close>

type_synonym callback = "saga_context \<Rightarrow> jsval outcome \<times> (string \<rightharpoonup> jsval)"

record saga_step =
  name :: string
  action :: callback
  compensation :: "callback option"
  executed :: bool
  compensated :: bool
  result :: jsval
  step_error :: "js_error option"

definition new_SagaStep :: "string \<Rightarrow> callback \<Rightarrow> callback option \<Rightarrow> saga_step" where
  "new_SagaStep nm act cmp =
     \<lparr>name = nm, action = act, compensation = cmp, executed = False, compensated = False,
      result = JNull, step_error = None\<rparr>"

text \<open>
  \<open>execute\<close>: the try block logs, awaits the action, stores the result, sets the flag and
  appends the log entry; the catch block stores the error, logs and throws it again.
  The result is the outcome, the step, the context and the lines printed.
\<close>

definition SagaStep_execute ::
  "saga_step \<Rightarrow> saga_context \<Rightarrow> jsval outcome \<times> saga_step \<times> saga_context \<times> log_line list" where
  "SagaStep_execute s c =
     (case action s c of
        (Returned v, d) \<Rightarrow>
          (Returned v,
           s\<lparr>result := v, executed := True\<rparr>,
           markStepExecuted (name s) v (c\<lparr>data := d\<rparr>),
           [Log_executing_step (name s), Log_step_completed (name s)])
      | (Threw e, d) \<Rightarrow>
          (Threw e,
           s\<lparr>step_error := Some e\<rparr>,
           c\<lparr>data := d\<rparr>,
           [Log_executing_step (name s), Log_step_failed (name s) (message e)]))"

text \<open>
  \<open>compensate\<close>: two early returns (step not executed, no compensation supplied), then
  the try block logs, awaits the compensation and sets the flag; the catch block logs and
  throws the error again.
\<close>

definition SagaStep_compensate ::
  "saga_step \<Rightarrow> saga_context \<Rightarrow> jsval outcome \<times> saga_step \<times> saga_context \<times> log_line list" where
  "SagaStep_compensate s c =
     (if \<not> executed s then (Returned JUndefined, s, c, [Log_skipping_compensation (name s)])
      else case compensation s of
        None \<Rightarrow> (Returned JUndefined, s, c, [Log_no_compensation (name s)])
      | Some cmp \<Rightarrow>
          (case cmp c of
             (Returned v, d) \<Rightarrow>
               (Returned v,
                s\<lparr>compensated := True\<rparr>,
                c\<lparr>data := d\<rparr>,
                [Log_compensating_step (name s), Log_compensation_completed (name s)])
           | (Threw e, d) \<Rightarrow>
               (Threw e,
                s,
                c\<lparr>data := d\<rparr>,
                [Log_compensating_step (name s), Log_compensation_failed (name s) (message e)])))"

definition isExecuted :: "saga_step \<Rightarrow> bool" where
  "isExecuted s = executed s"

definition isCompensated :: "saga_step \<Rightarrow> bool" where
  "isCompensated s = compensated s"

definition SagaStep_getError :: "saga_step \<Rightarrow> js_error option" where
  "SagaStep_getError s = step_error s"

definition SagaStep_reset :: "saga_step \<Rightarrow> saga_step" where
  "SagaStep_reset s = s\<lparr>executed := False, compensated := False, result := JNull, step_error := None\<rparr>"


section \<open>Saga\<close>

record saga =
  saga_name :: string
  steps :: "saga_step list"

definition new_Saga :: "string \<Rightarrow> saga" where
  "new_Saga nm = \<lparr>saga_name = nm, steps = []\<rparr>"

definition addStep :: "string \<Rightarrow> callback \<Rightarrow> callback option \<Rightarrow> saga \<Rightarrow> saga" where
  "addStep nm act cmp sg = sg\<lparr>steps := steps sg @ [new_SagaStep nm act cmp]\<rparr>"

definition Saga_reset :: "saga \<Rightarrow> saga" where
  "Saga_reset sg = sg\<lparr>steps := map SagaStep_reset (steps sg)\<rparr>"

definition getStepCount :: "saga \<Rightarrow> nat" where
  "getStepCount sg = length (steps sg)"

text \<open>
  The forward loop \<open>for (const step of this.steps) await step.execute(context)\<close> inside
  the try block: the first throw leaves the loop with the error, the steps after it untouched.
\<close>

fun execute_steps ::
  "saga_step list \<Rightarrow> saga_context \<Rightarrow> js_error option \<times> saga_step list \<times> saga_context \<times> log_line list" where
  "execute_steps [] c = (None, [], c, [])"
| "execute_steps (s # ss) c =
     (case SagaStep_execute s c of
        (Threw e, s', c', out) \<Rightarrow> (Some e, s' # ss, c', out)
      | (Returned v, s', c', out) \<Rightarrow>
          (case execute_steps ss c' of
             (r, ss', c'', out') \<Rightarrow> (r, s' # ss', c'', out @ out')))"

text \<open>
  The rollback loop. \<open>executedSteps\<close> is the filtered array, whose elements are the step
  objects of \<open>this.steps\<close> themselves: here it is the list of their positions, and the loop
  body writes the step back at its position. A throw of \<open>step.compensate\<close> is caught,
  logged, and the loop goes on.
\<close>

fun compensate_loop ::
  "nat list \<Rightarrow> saga_step list \<Rightarrow> saga_context \<Rightarrow> saga_step list \<times> saga_context \<times> log_line list" where
  "compensate_loop [] ss c = (ss, c, [])"
| "compensate_loop (i # is) ss c =
     (case SagaStep_compensate (ss ! i) c of
        (r, s', c', out) \<Rightarrow>
          (let caught = (case r of
                           Threw e \<Rightarrow> [Log_compensation_error (name s') (message e)]
                         | Returned v \<Rightarrow> [])
           in case compensate_loop is (ss[i := s']) c' of
                (ss', c'', out') \<Rightarrow> (ss', c'', out @ caught @ out')))"

definition executed_positions :: "saga_step list \<Rightarrow> nat list" where
  "executed_positions ss = filter (\<lambda>i. isExecuted (ss ! i)) [0..<length ss]"

definition Saga_compensate :: "saga \<Rightarrow> saga_context \<Rightarrow> saga \<times> saga_context \<times> log_line list" where
  "Saga_compensate sg c =
     (let c1 = markCompensating c;
          executedSteps = executed_positions (steps sg)
      in case compensate_loop (rev executedSteps) (steps sg) c1 of
           (ss', c2, out) \<Rightarrow>
             (sg\<lparr>steps := ss'\<rparr>,
              markCompensated c2,
              [Log_starting_compensation (saga_name sg)] @ out @
              [Log_compensation_finished (saga_name sg)]))"

definition Saga_execute ::
  "saga \<Rightarrow> (string \<rightharpoonup> jsval) \<Rightarrow> string \<Rightarrow> saga \<times> saga_context \<times> log_line list" where
  "Saga_execute sg initialData sid =
     (let context = markStarted (new_SagaContext initialData sid);
          started = [Log_starting_saga (saga_name sg) (sagaId context)]
      in case execute_steps (steps sg) context of
           (None, ss', c', out) \<Rightarrow>
             (sg\<lparr>steps := ss'\<rparr>, markCompleted c',
              started @ out @ [Log_saga_completed (saga_name sg)])
         | (Some e, ss', c', out) \<Rightarrow>
             (case Saga_compensate (sg\<lparr>steps := ss'\<rparr>) (markFailed e c') of
                (sg', c'', out') \<Rightarrow>
                  (sg', c'',
                   started @ out @ [Log_saga_failed (saga_name sg) (message e)] @ out')))"


section \<open>SagaOrchestrator\<close>

record execution_record =
  rec_sagaName :: string
  rec_sagaId :: string
  rec_status :: status
  rec_duration :: int
  rec_executedSteps :: nat
  rec_error :: "string option"
  rec_timestamp :: int

text \<open>
  The registry is a JavaScript \<open>Map\<close>: an association list in insertion order, where
  setting a key that is present replaces its value in place.
\<close>

record orchestrator =
  sagas :: "(string \<times> saga) list"
  executionHistory :: "execution_record list"
  maxHistorySize :: nat

definition new_SagaOrchestrator :: orchestrator where
  "new_SagaOrchestrator = \<lparr>sagas = [], executionHistory = [], maxHistorySize = 100\<rparr>"

definition registerSaga :: "string \<Rightarrow> saga \<Rightarrow> orchestrator \<Rightarrow> orchestrator \<times> log_line list" where
  "registerSaga nm sg orc =
     (orc\<lparr>sagas := AList.update nm sg (sagas orc)\<rparr>, [Log_saga_registered nm])"

text \<open>
  \<open>recordExecution\<close>: build the record, push it, then one \<open>shift\<close> if the history
  is longer than the bound. \<open>now\<close> is the reading of \<open>new Date()\<close>.
\<close>

definition new_record :: "string \<Rightarrow> saga_context \<Rightarrow> int \<Rightarrow> int \<Rightarrow> execution_record" where
  "new_record sagaName context duration now =
     \<lparr>rec_sagaName = sagaName,
      rec_sagaId = sagaId context,
      rec_status = getStatus context,
      rec_duration = duration,
      rec_executedSteps = length (getExecutedSteps context),
      rec_error = (case getError context of None \<Rightarrow> None | Some e \<Rightarrow> Some (message e)),
      rec_timestamp = now\<rparr>"

definition recordExecution ::
  "string \<Rightarrow> saga_context \<Rightarrow> int \<Rightarrow> int \<Rightarrow> orchestrator \<Rightarrow> orchestrator" where
  "recordExecution sagaName context duration now orc =
     (let record = new_record sagaName context duration now;
          pushed = executionHistory orc @ [record]
      in orc\<lparr>executionHistory :=
               (if length pushed > maxHistorySize orc then tl pushed else pushed)\<rparr>)"

text \<open>
  \<open>executeSaga\<close>: a missing name throws before anything else happens. Otherwise the saga
  runs (its step objects are mutated, so the registry entry is the saga after the run) and
  the outcome is recorded; \<open>elapsed\<close> is \<open>Date.now() - startTime\<close>. The catch block of
  the source logs and throws again whatever \<open>saga.execute\<close> throws; \<open>Saga_execute\<close> has
  no throwing path, every call that can throw being inside its own try blocks.
\<close>

definition executeSaga ::
  "string \<Rightarrow> (string \<rightharpoonup> jsval) \<Rightarrow> string \<Rightarrow> int \<Rightarrow> int \<Rightarrow> orchestrator \<Rightarrow>
     saga_context outcome \<times> orchestrator \<times> log_line list" where
  "executeSaga sagaName initialData sid elapsed now orc =
     (case map_of (sagas orc) sagaName of
        None \<Rightarrow> (Threw (Error (''Saga not found: '' @ sagaName)), orc, [])
      | Some sg \<Rightarrow>
          (case Saga_execute sg initialData sid of
             (sg', context, out) \<Rightarrow>
               (Returned context,
                recordExecution sagaName context elapsed now
                  (orc\<lparr>sagas := AList.update sagaName sg' (sagas orc)\<rparr>),
                [Log_orchestrator_executing sagaName] @ out)))"

text \<open>
  \<open>Array.prototype.slice(start)\<close> with one argument: a negative start counts from the
  end, and both ends are clamped to the array.
\<close>

definition slice_from :: "'a list \<Rightarrow> int \<Rightarrow> 'a list" where
  "slice_from xs start =
     (let len = int (length xs);
          k = (if start < 0 then max (len + start) 0 else min start len)
      in drop (nat k) xs)"

definition getExecutionHistory :: "orchestrator \<Rightarrow> int \<Rightarrow> execution_record list" where
  "getExecutionHistory orc limit = slice_from (executionHistory orc) (- limit)"

definition clearHistory :: "orchestrator \<Rightarrow> orchestrator \<times> log_line list" where
  "clearHistory orc = (orc\<lparr>executionHistory := []\<rparr>, [Log_history_cleared])"

text \<open>
  \<open>getStatistics\<close>. The two counting objects are association lists in insertion order;
  \<open>(obj[key] || 0) + 1\<close> reads a missing key, or a stored zero, as zero. The average is
  \<open>Math.round\<close> of the quotient, which rounds a half upwards. Saga names that are also
  members of \<open>Object.prototype\<close> are outside this model of \<open>bySaga\<close>.
\<close>

record statistics =
  totalExecutions :: nat
  registeredSagas :: nat
  byStatus :: "(status \<times> nat) list"
  bySaga :: "(string \<times> nat) list"
  averageDuration :: int

definition count_up :: "'k \<Rightarrow> ('k \<times> nat) list \<Rightarrow> ('k \<times> nat) list" where
  "count_up k al =
     AList.update k ((case map_of al k of None \<Rightarrow> 0 | Some n \<Rightarrow> (if n = 0 then 0 else n)) + 1) al"

definition tally ::
  "(status \<times> nat) list \<times> (string \<times> nat) list \<times> int \<Rightarrow> execution_record \<Rightarrow>
     (status \<times> nat) list \<times> (string \<times> nat) list \<times> int" where
  "tally acc r =
     (case acc of (bst, bsg, totalDuration) \<Rightarrow>
        (count_up (rec_status r) bst, count_up (rec_sagaName r) bsg, totalDuration + rec_duration r))"

definition getStatistics :: "orchestrator \<Rightarrow> statistics" where
  "getStatistics orc =
     (case foldl tally ([], [], 0) (executionHistory orc) of
        (bst, bsg, totalDuration) \<Rightarrow>
          \<lparr>totalExecutions = length (executionHistory orc),
           registeredSagas = length (sagas orc),
           byStatus = bst,
           bySaga = bsg,
           averageDuration =
             (if length (executionHistory orc) > 0
              then (2 * totalDuration + int (length (executionHistory orc)))
                     div (2 * int (length (executionHistory orc)))
              else 0)\<rparr>)"


section \<open>Reading the console output\<close>

text \<open>
  \<open>SagaStep.execute\<close> prints its first line immediately before it calls the action, and
  \<open>SagaStep.compensate\<close> prints exactly one line on entry: the skip line, the
  no-compensation line, or the line immediately before it calls the compensation. So the
  output of a run tells which callbacks were invoked and in which order.
\<close>

definition actions_invoked :: "log_line list \<Rightarrow> string list" where
  "actions_invoked out =
     List.map_filter (\<lambda>l. case l of Log_executing_step n \<Rightarrow> Some n | _ \<Rightarrow> None) out"

definition compensations_invoked :: "log_line list \<Rightarrow> string list" where
  "compensations_invoked out =
     List.map_filter (\<lambda>l. case l of Log_compensating_step n \<Rightarrow> Some n | _ \<Rightarrow> None) out"

definition compensate_calls :: "log_line list \<Rightarrow> string list" where
  "compensate_calls out =
     List.map_filter
       (\<lambda>l. case l of
              Log_skipping_compensation n \<Rightarrow> Some n
            | Log_no_compensation n \<Rightarrow> Some n
            | Log_compensating_step n \<Rightarrow> Some n
            | _ \<Rightarrow> None) out"


text \<open>
  The context the forward pass of \<open>Saga.execute\<close> starts from, and the position of the
  first step whose action throws when the steps run in order from a context: each action
  sees the key/value store and the execution log the steps before it have left.
\<close>

definition run_context :: "(string \<rightharpoonup> jsval) \<Rightarrow> string \<Rightarrow> saga_context" where
  "run_context initialData sid = markStarted (new_SagaContext initialData sid)"

fun first_failure :: "saga_step list \<Rightarrow> saga_context \<Rightarrow> nat option" where
  "first_failure [] c = None"
| "first_failure (s # ss) c =
     (case action s c of
        (Threw e, d) \<Rightarrow> Some 0
      | (Returned v, d) \<Rightarrow>
          map_option Suc (first_failure ss (markStepExecuted (name s) v (c\<lparr>data := d\<rparr>))))"

definition has_compensation :: "saga_step \<Rightarrow> bool" where
  "has_compensation s = (compensation s \<noteq> None)"


section \<open>The status state machine\<close>

fun transition :: "status \<Rightarrow> status \<Rightarrow> bool" where
  "transition PENDING IN_PROGRESS = True"
| "transition IN_PROGRESS COMPLETED = True"
| "transition IN_PROGRESS FAILED = True"
| "transition FAILED COMPENSATING = True"
| "transition COMPENSATING COMPENSATED = True"
| "transition _ _ = False"

definition follows_state_machine :: "status list \<Rightarrow> bool" where
  "follows_state_machine trail = successively transition trail"


section \<open>Sequences of recorded executions\<close>

type_synonym recording = "string \<times> saga_context \<times> int \<times> int"

definition record_call :: "orchestrator \<Rightarrow> recording \<Rightarrow> orchestrator" where
  "record_call orc x = (case x of (n, c, d, t) \<Rightarrow> recordExecution n c d t orc)"

definition recorded :: "recording \<Rightarrow> execution_record" where
  "recorded x = (case x of (n, c, d, t) \<Rightarrow> new_record n c d t)"


section \<open>Callbacks and sagas for the examples\<close>

definition returns :: "jsval \<Rightarrow> callback" where
  "returns v c = (Returned v, data c)"

definition throws :: "string \<Rightarrow> callback" where
  "throws msg c = (Threw (Error msg), data c)"

text \<open>An action that fails when the initial data asks for it, as a declined payment does.\<close>

definition fails_on_request :: callback where
  "fails_on_request c =
     (if data c ''decline'' = Some (JBool True) then (Threw (Error ''declined''), data c)
      else (Returned (JStr ''paid''), (data c)(''paymentId'' \<mapsto> JNum 1)))"

definition abc_saga :: saga where
  "abc_saga =
     addStep ''C'' (throws ''insufficient stock'') (Some (returns JUndefined))
       (addStep ''B'' (returns (JNum 2)) (Some (throws ''refund failed''))
          (addStep ''A'' (returns (JNum 1)) (Some (returns JUndefined)) (new_Saga ''ABC'')))"

definition ok_saga :: saga where
  "ok_saga =
     addStep ''B'' (returns JUndefined) None
       (addStep ''A'' (returns (JNum 1)) (Some (returns JUndefined)) (new_Saga ''OK''))"

definition pay_saga :: saga where
  "pay_saga = addStep ''Pay'' fails_on_request (Some (returns JUndefined)) (new_Saga ''Pay'')"


definition decline_request :: "string \<rightharpoonup> jsval" where
  "decline_request = [''decline'' \<mapsto> JBool True]"


text \<open>Step B of the three-step saga, executed once: the step and the context after it.\<close>

definition refund_step_run :: "jsval outcome \<times> saga_step \<times> saga_context \<times> log_line list" where
  "refund_step_run =
     SagaStep_execute (new_SagaStep ''B'' (returns (JNum 2)) (Some (throws ''refund failed'')))
       (run_context Map.empty ''run-1'')"

definition stock_step :: saga_step where
  "stock_step = new_SagaStep ''C'' (throws ''insufficient stock'') (Some (returns JUndefined))"

definition abc_orchestrator :: orchestrator where
  "abc_orchestrator = fst (registerSaga ''ABC'' abc_saga new_SagaOrchestrator)"

definition numbered_recordings :: "nat \<Rightarrow> recording list" where
  "numbered_recordings n =
     map (\<lambda>i. (''ABC'', run_context Map.empty ''run'', int i, int i)) [0..<n]"



section \<open>Reading the output: basic facts\<close>

lemma map_filter_append: "List.map_filter f (xs @ ys) = List.map_filter f xs @ List.map_filter f ys"
  by (simp add: List.map_filter_def)

lemma actions_invoked_simps [simp]:
  "actions_invoked [] = []"
  "actions_invoked (l # out) =
     (case l of Log_executing_step n \<Rightarrow> [n] | _ \<Rightarrow> []) @ actions_invoked out"
  "actions_invoked (out @ out') = actions_invoked out @ actions_invoked out'"
  by (simp_all add: actions_invoked_def map_filter_append split: log_line.splits)

lemma compensations_invoked_simps [simp]:
  "compensations_invoked [] = []"
  "compensations_invoked (l # out) =
     (case l of Log_compensating_step n \<Rightarrow> [n] | _ \<Rightarrow> []) @ compensations_invoked out"
  "compensations_invoked (out @ out') = compensations_invoked out @ compensations_invoked out'"
  by (simp_all add: compensations_invoked_def map_filter_append split: log_line.splits)

lemma compensate_calls_simps [simp]:
  "compensate_calls [] = []"
  "compensate_calls (l # out) =
     (case l of Log_skipping_compensation n \<Rightarrow> [n] | Log_no_compensation n \<Rightarrow> [n]
              | Log_compensating_step n \<Rightarrow> [n] | _ \<Rightarrow> []) @ compensate_calls out"
  "compensate_calls (out @ out') = compensate_calls out @ compensate_calls out'"
  by (simp_all add: compensate_calls_def map_filter_append split: log_line.splits)


section \<open>Facts about the step and the two loops\<close>

lemma markStepExecuted_simps [simp]:
  "status (markStepExecuted n v c) = status c"
  "statusTrail (markStepExecuted n v c) = statusTrail c"
  "sagaId (markStepExecuted n v c) = sagaId c"
  "error (markStepExecuted n v c) = error c"
  "data (markStepExecuted n v c) = data c"
  "length (executedSteps (markStepExecuted n v c)) = Suc (length (executedSteps c))"
  by (simp_all add: markStepExecuted_def)

lemma run_context_simps [simp]:
  "status (run_context d sid) = IN_PROGRESS"
  "statusTrail (run_context d sid) = [PENDING, IN_PROGRESS]"
  "executedSteps (run_context d sid) = []"
  "error (run_context d sid) = None"
  "sagaId (run_context d sid) = sid"
  "data (run_context d sid) = d"
  by (simp_all add: run_context_def markStarted_def new_SagaContext_def)

lemma SagaStep_execute_Returned:
  "action s c = (Returned v, d) \<Longrightarrow>
   SagaStep_execute s c =
     (Returned v, s\<lparr>result := v, executed := True\<rparr>, markStepExecuted (name s) v (c\<lparr>data := d\<rparr>),
      [Log_executing_step (name s), Log_step_completed (name s)])"
  by (simp add: SagaStep_execute_def)

lemma SagaStep_execute_Threw:
  "action s c = (Threw e, d) \<Longrightarrow>
   SagaStep_execute s c =
     (Threw e, s\<lparr>step_error := Some e\<rparr>, c\<lparr>data := d\<rparr>,
      [Log_executing_step (name s), Log_step_failed (name s) (message e)])"
  by (simp add: SagaStep_execute_def)

lemma SagaStep_execute_cases:
  obtains (Returned) v d where "action s c = (Returned v, d)"
        | (Threw) e d where "action s c = (Threw e, d)"
  by (cases "action s c"; cases "fst (action s c)") auto

lemma execute_steps_invariant:
  "execute_steps ss c = (r, ss', c', out) \<Longrightarrow>
     status c' = status c \<and> statusTrail c' = statusTrail c \<and> sagaId c' = sagaId c \<and>
     error c' = error c \<and> length ss' = length ss \<and>
     compensate_calls out = [] \<and> compensations_invoked out = []"
proof (induction ss arbitrary: c r ss' c' out)
  case Nil
  then show ?case by simp
next
  case (Cons s ss)
  show ?case
  proof (cases rule: SagaStep_execute_cases [of s c])
    case (Returned v d)
    obtain r1 ss1 c1 out1 where
      rest: "execute_steps ss (markStepExecuted (name s) v (c\<lparr>data := d\<rparr>)) = (r1, ss1, c1, out1)"
      by (metis prod_cases4)
    from Cons.IH [OF rest] Cons.prems show ?thesis
      by (auto simp: SagaStep_execute_Returned [OF Returned] rest)
  next
    case (Threw e d)
    with Cons.prems show ?thesis
      by (auto simp: SagaStep_execute_Threw [OF Threw])
  qed
qed

lemma execute_steps_all_succeed:
  "first_failure ss c = None \<Longrightarrow>
   \<exists>ss' c' out. execute_steps ss c = (None, ss', c', out) \<and>
     length (executedSteps c') = length (executedSteps c) + length ss \<and>
     actions_invoked out = map name ss"
proof (induction ss arbitrary: c)
  case Nil
  then show ?case by simp
next
  case (Cons s ss)
  show ?case
  proof (cases rule: SagaStep_execute_cases [of s c])
    case (Returned v d)
    let ?c1 = "markStepExecuted (name s) v (c\<lparr>data := d\<rparr>)"
    from Cons.prems Returned have "first_failure ss ?c1 = None" by simp
    from Cons.IH [OF this] obtain ss' c' out where
      rest: "execute_steps ss ?c1 = (None, ss', c', out)"
      and len: "length (executedSteps c') = length (executedSteps ?c1) + length ss"
      and acts: "actions_invoked out = map name ss"
      by blast
    show ?thesis
      using len acts
      by (simp add: SagaStep_execute_Returned [OF Returned] rest)
  next
    case (Threw e d)
    with Cons.prems show ?thesis by simp
  qed
qed

lemma execute_steps_first_failure:
  "first_failure ss c = Some k \<Longrightarrow>
   \<exists>e ss1 c' out. execute_steps ss c = (Some e, ss1 @ (ss ! k)\<lparr>step_error := Some e\<rparr> # drop (Suc k) ss, c', out) \<and>
     k < length ss \<and> length ss1 = k \<and>
     map name ss1 = map name (take k ss) \<and>
     map compensation ss1 = map compensation (take k ss) \<and>
     (\<forall>s \<in> set ss1. executed s) \<and>
     length (executedSteps c') = length (executedSteps c) + k \<and>
     actions_invoked out = map name (take (Suc k) ss)"
proof (induction ss arbitrary: c k)
  case Nil
  then show ?case by simp
next
  case (Cons s ss)
  show ?case
  proof (cases rule: SagaStep_execute_cases [of s c])
    case (Returned v d)
    let ?c1 = "markStepExecuted (name s) v (c\<lparr>data := d\<rparr>)"
    from Cons.prems Returned obtain j where k: "k = Suc j" and ff: "first_failure ss ?c1 = Some j"
      by auto
    from Cons.IH [OF ff] obtain e ss1 c' out where
      rest: "execute_steps ss ?c1 = (Some e, ss1 @ (ss ! j)\<lparr>step_error := Some e\<rparr> # drop (Suc j) ss, c', out)"
      and facts: "j < length ss" "length ss1 = j" "map name ss1 = map name (take j ss)"
        "map compensation ss1 = map compensation (take j ss)" "\<forall>s \<in> set ss1. executed s"
        "length (executedSteps c') = length (executedSteps ?c1) + j"
        "actions_invoked out = map name (take (Suc j) ss)"
      by blast
    let ?s' = "s\<lparr>result := v, executed := True\<rparr>"
    have "execute_steps (s # ss) c =
       (Some e, (?s' # ss1) @ ((s # ss) ! k)\<lparr>step_error := Some e\<rparr> # drop (Suc k) (s # ss), c',
        [Log_executing_step (name s), Log_step_completed (name s)] @ out)"
      by (simp add: SagaStep_execute_Returned [OF Returned] rest k)
    moreover have "k < length (s # ss)" "length (?s' # ss1) = k"
      "map name (?s' # ss1) = map name (take k (s # ss))"
      "map compensation (?s' # ss1) = map compensation (take k (s # ss))"
      "\<forall>t \<in> set (?s' # ss1). executed t"
      "length (executedSteps c') = length (executedSteps c) + k"
      "actions_invoked ([Log_executing_step (name s), Log_step_completed (name s)] @ out) =
         map name (take (Suc k) (s # ss))"
      using facts by (simp_all add: k)
    ultimately show ?thesis by blast
  next
    case (Threw e d)
    with Cons.prems have k: "k = 0" by simp
    have "execute_steps (s # ss) c =
       (Some e, [] @ ((s # ss) ! k)\<lparr>step_error := Some e\<rparr> # drop (Suc k) (s # ss), c\<lparr>data := d\<rparr>,
        [Log_executing_step (name s), Log_step_failed (name s) (message e)])"
      by (simp add: SagaStep_execute_Threw [OF Threw] k)
    then show ?thesis
      apply (intro exI conjI)
             apply assumption
      by (simp_all add: k)
  qed
qed

lemma first_failure_agrees:
  "(first_failure ss c = None) = (fst (execute_steps ss c) = None)"
proof (cases "first_failure ss c")
  case None
  with execute_steps_all_succeed [OF None] show ?thesis by auto
next
  case (Some k)
  with execute_steps_first_failure [OF Some] show ?thesis by auto
qed

lemma SagaStep_compensate_facts:
  "SagaStep_compensate s c = (r, s', c', out) \<Longrightarrow>
     name s' = name s \<and> executed s' = executed s \<and> compensation s' = compensation s \<and>
     action s' = action s \<and> step_error s' = step_error s \<and> result s' = result s \<and>
     status c' = status c \<and> statusTrail c' = statusTrail c \<and>
     executedSteps c' = executedSteps c \<and> error c' = error c \<and> sagaId c' = sagaId c \<and>
     actions_invoked out = []"
  by (auto simp: SagaStep_compensate_def split: if_splits option.splits prod.splits outcome.splits)

lemma SagaStep_compensate_calls:
  "executed s \<Longrightarrow> SagaStep_compensate s c = (r, s', c', out) \<Longrightarrow>
     compensate_calls out = [name s] \<and>
     compensations_invoked out = (if has_compensation s then [name s] else [])"
  by (auto simp: SagaStep_compensate_def has_compensation_def
           split: if_splits option.splits prod.splits outcome.splits)

lemma compensate_loop_invariant:
  "compensate_loop is ss c = (ss', c', out) \<Longrightarrow>
     status c' = status c \<and> statusTrail c' = statusTrail c \<and>
     executedSteps c' = executedSteps c \<and> error c' = error c \<and> sagaId c' = sagaId c \<and>
     length ss' = length ss \<and> actions_invoked out = []"
proof (induction "is" arbitrary: ss c ss' c' out)
  case Nil
  then show ?case by simp
next
  case (Cons i "is")
  obtain r s1 c1 out1 where st: "SagaStep_compensate (ss ! i) c = (r, s1, c1, out1)"
    by (metis prod_cases4)
  obtain ss2 c2 out2 where rest: "compensate_loop is (ss[i := s1]) c1 = (ss2, c2, out2)"
    by (metis prod_cases3)
  from Cons.IH [OF rest] SagaStep_compensate_facts [OF st] Cons.prems
  show ?case
    by (auto simp: st rest Let_def split: outcome.splits)
qed

lemma compensate_loop_calls:
  "distinct is \<Longrightarrow> \<forall>i \<in> set is. i < length ss \<and> executed (ss ! i) \<Longrightarrow>
   compensate_loop is ss c = (ss', c', out) \<Longrightarrow>
     compensate_calls out = map (\<lambda>i. name (ss ! i)) is \<and>
     compensations_invoked out = map (\<lambda>i. name (ss ! i)) (filter (\<lambda>i. has_compensation (ss ! i)) is) \<and>
     (\<forall>j < length ss. j \<notin> set is \<longrightarrow> ss' ! j = ss ! j) \<and>
     (\<forall>j < length ss. executed (ss' ! j) = executed (ss ! j) \<and> step_error (ss' ! j) = step_error (ss ! j))"
proof (induction "is" arbitrary: ss c ss' c' out)
  case Nil
  then show ?case by simp
next
  case (Cons i "is")
  obtain r s1 c1 out1 where st: "SagaStep_compensate (ss ! i) c = (r, s1, c1, out1)"
    by (metis prod_cases4)
  obtain ss2 c2 out2 where rest: "compensate_loop is (ss[i := s1]) c1 = (ss2, c2, out2)"
    by (metis prod_cases3)
  note f = SagaStep_compensate_facts [OF st]
  have i: "i < length ss" "executed (ss ! i)" "i \<notin> set is" "distinct is"
    using Cons.prems by auto
  note cl = SagaStep_compensate_calls [OF i(2) st]
  have same: "\<And>j. j \<in> set is \<Longrightarrow> ss[i := s1] ! j = ss ! j"
    using i(3) by (metis nth_list_update_neq)
  have pre: "\<forall>j \<in> set is. j < length (ss[i := s1]) \<and> executed (ss[i := s1] ! j)"
    using Cons.prems(2) same by simp
  note IH = Cons.IH [OF i(4) pre rest]
  have res: "ss' = ss2" "c' = c2"
    "out = out1 @ (case r of Threw e \<Rightarrow> [Log_compensation_error (name s1) (message e)] | Returned v \<Rightarrow> []) @ out2"
    using Cons.prems(3) by (simp_all add: st rest Let_def)
  have caught: "compensate_calls (case r of Threw e \<Rightarrow> [Log_compensation_error (name s1) (message e)] | Returned v \<Rightarrow> []) = []"
     "compensations_invoked (case r of Threw e \<Rightarrow> [Log_compensation_error (name s1) (message e)] | Returned v \<Rightarrow> []) = []"
    by (simp_all split: outcome.splits)
  have m1: "map (\<lambda>j. name (ss[i := s1] ! j)) is = map (\<lambda>j. name (ss ! j)) is"
    using same by simp
  have m2: "filter (\<lambda>j. has_compensation (ss[i := s1] ! j)) is = filter (\<lambda>j. has_compensation (ss ! j)) is"
    using same by (simp cong: filter_cong)
  have m3: "map (\<lambda>j. name (ss[i := s1] ! j)) (filter (\<lambda>j. has_compensation (ss ! j)) is) =
            map (\<lambda>j. name (ss ! j)) (filter (\<lambda>j. has_compensation (ss ! j)) is)"
    using same by simp
  have a: "compensate_calls out = map (\<lambda>i. name (ss ! i)) (i # is)"
    using IH cl by (simp add: res caught m1)
  have b: "compensations_invoked out =
           map (\<lambda>i. name (ss ! i)) (filter (\<lambda>i. has_compensation (ss ! i)) (i # is))"
    using IH cl by (simp add: res caught m2 m3)
  have c: "\<forall>j < length ss. j \<notin> set (i # is) \<longrightarrow> ss' ! j = ss ! j"
    using IH by (simp add: res)
  have d: "\<forall>j < length ss. executed (ss' ! j) = executed (ss ! j) \<and> step_error (ss' ! j) = step_error (ss ! j)"
  proof (intro allI impI)
    fix j assume j: "j < length ss"
    have "executed (ss[i := s1] ! j) = executed (ss ! j) \<and> step_error (ss[i := s1] ! j) = step_error (ss ! j)"
      using f i(1) by (cases "j = i") simp_all
    with IH j show "executed (ss' ! j) = executed (ss ! j) \<and> step_error (ss' ! j) = step_error (ss ! j)"
      by (simp add: res)
  qed
  from a b c d show ?case by blast
qed

lemma map_filter_positions:
  "map (\<lambda>i. f (ss ! i)) (filter (\<lambda>i. P (ss ! i)) [0..<length ss]) = map f (filter P ss)"
proof -
  have "map f (filter P ss) = map f (filter P (map ((!) ss) [0..<length ss]))"
    by (simp add: map_nth)
  also have "\<dots> = map (\<lambda>i. f (ss ! i)) (filter (\<lambda>i. P (ss ! i)) [0..<length ss])"
    by (simp add: filter_map o_def)
  finally show ?thesis by simp
qed

lemma filter_filter_positions:
  "map (\<lambda>i. f (ss ! i)) (filter (\<lambda>i. Q (ss ! i)) (filter (\<lambda>i. P (ss ! i)) [0..<length ss])) =
   map f (filter (\<lambda>s. P s \<and> Q s) ss)"
  using map_filter_positions [of f ss "\<lambda>s. P s \<and> Q s"] by (simp add: conj_commute)

lemma executed_positions_facts:
  "distinct (rev (executed_positions ss))"
  "\<forall>i \<in> set (rev (executed_positions ss)). i < length ss \<and> executed (ss ! i)"
  by (auto simp: executed_positions_def isExecuted_def)




lemma Saga_compensate_result:
  "\<exists>ss' c1 out1. compensate_loop (rev (executed_positions (steps sg))) (steps sg) (markCompensating c) = (ss', c1, out1) \<and>
     Saga_compensate sg c = (sg\<lparr>steps := ss'\<rparr>, markCompensated c1,
        [Log_starting_compensation (saga_name sg)] @ out1 @ [Log_compensation_finished (saga_name sg)])"
  by (cases "compensate_loop (rev (executed_positions (steps sg))) (steps sg) (markCompensating c)")
     (simp add: Saga_compensate_def Let_def)

lemma Saga_compensate_facts:
  assumes "Saga_compensate sg c = (sg', c', out)"
  shows "compensate_calls out = rev (map name (filter executed (steps sg)))"
    and "compensations_invoked out =
           rev (map name (filter (\<lambda>s. executed s \<and> has_compensation s) (steps sg)))"
    and "actions_invoked out = []"
    and "status c' = COMPENSATED"
    and "statusTrail c' = statusTrail c @ [COMPENSATING, COMPENSATED]"
    and "executedSteps c' = executedSteps c"
    and "error c' = error c"
    and "sagaId c' = sagaId c"
    and "length (steps sg') = length (steps sg)"
    and "\<forall>j < length (steps sg). \<not> executed (steps sg ! j) \<longrightarrow> steps sg' ! j = steps sg ! j"
    and "\<forall>j < length (steps sg). executed (steps sg' ! j) = executed (steps sg ! j)"
proof -
  obtain ss' c1 out1 where
    loop: "compensate_loop (rev (executed_positions (steps sg))) (steps sg) (markCompensating c) = (ss', c1, out1)"
    and res: "Saga_compensate sg c = (sg\<lparr>steps := ss'\<rparr>, markCompensated c1,
        [Log_starting_compensation (saga_name sg)] @ out1 @ [Log_compensation_finished (saga_name sg)])"
    using Saga_compensate_result by blast
  have eqs: "sg' = sg\<lparr>steps := ss'\<rparr>" "c' = markCompensated c1"
    "out = [Log_starting_compensation (saga_name sg)] @ out1 @ [Log_compensation_finished (saga_name sg)]"
    using assms res by simp_all
  note inv = compensate_loop_invariant [OF loop]
  note cl = compensate_loop_calls [OF executed_positions_facts loop]
  have calls: "compensate_calls out1 = map (\<lambda>i. name (steps sg ! i)) (rev (executed_positions (steps sg)))"
    and invk: "compensations_invoked out1 =
       map (\<lambda>i. name (steps sg ! i))
         (filter (\<lambda>i. has_compensation (steps sg ! i)) (rev (executed_positions (steps sg))))"
    using cl by simp_all
  have pos: "map (\<lambda>i. name (steps sg ! i)) (executed_positions (steps sg)) =
             map name (filter executed (steps sg))"
    unfolding executed_positions_def isExecuted_def by (rule map_filter_positions)
  have pos2: "map (\<lambda>i. name (steps sg ! i))
                (filter (\<lambda>i. has_compensation (steps sg ! i)) (executed_positions (steps sg))) =
              map name (filter (\<lambda>s. executed s \<and> has_compensation s) (steps sg))"
    unfolding executed_positions_def isExecuted_def by (rule filter_filter_positions)
  have a: "compensate_calls out1 = rev (map name (filter executed (steps sg)))"
    unfolding calls pos [symmetric] by (simp add: rev_map)
  have b: "compensations_invoked out1 =
       rev (map name (filter (\<lambda>s. executed s \<and> has_compensation s) (steps sg)))"
    unfolding invk pos2 [symmetric] by (simp add: rev_map rev_filter)
  show "compensate_calls out = rev (map name (filter executed (steps sg)))"
    using a by (simp add: eqs)
  show "compensations_invoked out =
           rev (map name (filter (\<lambda>s. executed s \<and> has_compensation s) (steps sg)))"
    using b by (simp add: eqs)
  show "actions_invoked out = []"
    using inv by (simp add: eqs)
  show "status c' = COMPENSATED"
    by (simp add: eqs markCompensated_def)
  show "statusTrail c' = statusTrail c @ [COMPENSATING, COMPENSATED]"
    using inv by (simp add: eqs markCompensated_def markCompensating_def)
  show "executedSteps c' = executedSteps c" "error c' = error c" "sagaId c' = sagaId c"
    using inv by (simp_all add: eqs markCompensated_def markCompensating_def)
  show "length (steps sg') = length (steps sg)"
    using inv by (simp add: eqs)
  show "\<forall>j < length (steps sg). \<not> executed (steps sg ! j) \<longrightarrow> steps sg' ! j = steps sg ! j"
    using cl by (simp add: eqs executed_positions_def isExecuted_def)
  show "\<forall>j < length (steps sg). executed (steps sg' ! j) = executed (steps sg ! j)"
    using cl by (simp add: eqs)
qed

lemma Saga_execute_success:
  "execute_steps (steps sg) (run_context initialData sid) = (None, ss', c', out) \<Longrightarrow>
   Saga_execute sg initialData sid =
     (sg\<lparr>steps := ss'\<rparr>, markCompleted c',
      [Log_starting_saga (saga_name sg) sid] @ out @ [Log_saga_completed (saga_name sg)])"
  by (simp add: Saga_execute_def run_context_def Let_def markStarted_def new_SagaContext_def)

lemma Saga_execute_failure:
  "execute_steps (steps sg) (run_context initialData sid) = (Some e, ss', c', out) \<Longrightarrow>
   Saga_compensate (sg\<lparr>steps := ss'\<rparr>) (markFailed e c') = (sg', c'', out') \<Longrightarrow>
   Saga_execute sg initialData sid =
     (sg', c'',
      [Log_starting_saga (saga_name sg) sid] @ out @ [Log_saga_failed (saga_name sg) (message e)] @ out')"
  by (simp add: Saga_execute_def run_context_def Let_def markStarted_def new_SagaContext_def)

lemma Saga_execute_outcome:
  "case Saga_execute sg initialData sid of (sg', c, out) \<Rightarrow>
     (status c = COMPLETED \<and> error c = None) \<or> (status c = COMPENSATED \<and> (\<exists>e. error c = Some e))"
proof -
  obtain r ss' c' out where
    fwd: "execute_steps (steps sg) (run_context initialData sid) = (r, ss', c', out)"
    by (metis prod_cases4)
  note inv = execute_steps_invariant [OF fwd]
  show ?thesis
  proof (cases r)
    case None
    show ?thesis
      using inv by (simp add: Saga_execute_success [OF fwd [unfolded None]] markCompleted_def)
  next
    case (Some e)
    obtain sg' c'' out' where
      cmp: "Saga_compensate (sg\<lparr>steps := ss'\<rparr>) (markFailed e c') = (sg', c'', out')"
      by (metis prod_cases3)
    note f = Saga_compensate_facts [OF cmp]
    show ?thesis
      using f(4,7)
      by (simp add: Saga_execute_failure [OF fwd [unfolded Some] cmp] markFailed_def)
  qed
qed


lemmas example_defs =
  abc_saga_def ok_saga_def pay_saga_def addStep_def new_Saga_def new_SagaStep_def
  returns_def throws_def fails_on_request_def stock_step_def decline_request_def

lemmas run_defs =
  Saga_execute_def Saga_compensate_def SagaStep_execute_def SagaStep_compensate_def
  executed_positions_def isExecuted_def Let_def
  new_SagaContext_def markStarted_def markCompleted_def markFailed_def markCompensating_def
  markCompensated_def markStepExecuted_def run_context_def


section \<open>Facts about the history\<close>

lemma sum_count_up: "sum_list (map snd (count_up k al)) = Suc (sum_list (map snd al))"
  unfolding count_up_def
  by (induction al) (auto)

lemma tally_sum:
  "foldl tally (bst, bsg, t) h = (bst', bsg', t') \<Longrightarrow>
     sum_list (map snd bst') = sum_list (map snd bst) + length h"
proof (induction h arbitrary: bst bsg t)
  case Nil
  then show ?case by simp
next
  case (Cons r h)
  then show ?case by (simp add: tally_def sum_count_up)
qed

lemma record_call_history:
  "executionHistory (record_call orc x) =
     (if length (executionHistory orc) + 1 > maxHistorySize orc
      then tl (executionHistory orc @ [recorded x]) else executionHistory orc @ [recorded x])"
  "maxHistorySize (record_call orc x) = maxHistorySize orc"
  by (auto simp: record_call_def recorded_def recordExecution_def Let_def split: prod.splits)

lemma drop_Suc_append_tl: "ys \<noteq> [] \<Longrightarrow> drop (Suc n) (ys @ zs) = drop n (tl ys @ zs)"
  by (cases ys) simp_all

lemma window:
  "length (executionHistory orc) \<le> maxHistorySize orc \<Longrightarrow>
   executionHistory (foldl record_call orc xs) =
     drop (length (executionHistory orc) + length xs - maxHistorySize orc)
       (executionHistory orc @ map recorded xs)
   \<and> maxHistorySize (foldl record_call orc xs) = maxHistorySize orc"
proof (induction xs arbitrary: orc)
  case Nil
  then show ?case by simp
next
  case (Cons x xs)
  let ?o = "record_call orc x"
  let ?h = "executionHistory orc" and ?R = "map recorded xs"
  have le: "length (executionHistory ?o) \<le> maxHistorySize ?o"
    using Cons.prems by (simp add: record_call_history)
  note IH = Cons.IH [OF le]
  have cap: "maxHistorySize (foldl record_call orc (x # xs)) = maxHistorySize orc"
    using IH by (simp add: record_call_history(2))
  have "executionHistory (foldl record_call orc (x # xs)) =
        drop (length ?h + length (x # xs) - maxHistorySize orc) (?h @ map recorded (x # xs))"
  proof (cases "length ?h = maxHistorySize orc")
    case True
    have h: "executionHistory ?o = tl (?h @ [recorded x])"
      using True by (simp add: record_call_history)
    have len: "length (executionHistory ?o) + length xs - maxHistorySize ?o = length xs"
      using True by (simp add: h record_call_history(2))
    have "executionHistory (foldl record_call orc (x # xs)) =
          drop (length xs) (tl (?h @ [recorded x]) @ ?R)"
      using IH unfolding len by (simp only: h foldl_Cons)
    also have "\<dots> = drop (Suc (length xs)) ((?h @ [recorded x]) @ ?R)"
      by (rule drop_Suc_append_tl [symmetric]) simp
    also have "(?h @ [recorded x]) @ ?R = ?h @ map recorded (x # xs)"
      by simp
    also have "Suc (length xs) = length ?h + length (x # xs) - maxHistorySize orc"
      using True by simp
    finally show ?thesis .
  next
    case False
    then show ?thesis
      using IH Cons.prems
      by (simp add: record_call_history)
  qed
  with cap show ?case by simp
qed

lemma slice_from_all: "int (length xs) \<le> n \<Longrightarrow> slice_from xs (- n) = xs"
  by (auto simp: slice_from_def Let_def)

lemma slice_from_last:
  "0 < n \<Longrightarrow> n \<le> length xs \<Longrightarrow> slice_from xs (- int n) = drop (length xs - n) xs"
  by (simp add: slice_from_def Let_def nat_diff_distrib')


section \<open>The saga sequencer\<close>




text \<open>
  C2. A saga run in which every action succeeds (no position is a first failure), for any
  number of steps, zero included: the context returned is COMPLETED, its execution log has
  one entry for each step, no compensation is invoked and \<open>step.compensate\<close> is not
  even called; the actions invoked are those of all the steps, in order.
\<close>

theorem all_actions_succeed_completes:
  assumes "first_failure (steps sg) (run_context initialData sid) = None"
  shows "case Saga_execute sg initialData sid of (sg', c, out) \<Rightarrow>
           status c = COMPLETED \<and>
           length (executedSteps c) = length (steps sg) \<and>
           compensations_invoked out = [] \<and>
           compensate_calls out = [] \<and>
           actions_invoked out = map name (steps sg)"
proof -
  from execute_steps_all_succeed [OF assms] obtain ss' c' out where
    fwd: "execute_steps (steps sg) (run_context initialData sid) = (None, ss', c', out)"
    and len: "length (executedSteps c') = length (executedSteps (run_context initialData sid)) + length (steps sg)"
    and acts: "actions_invoked out = map name (steps sg)"
    by blast
  note inv = execute_steps_invariant [OF fwd]
  show ?thesis
    using len acts inv
    by (simp add: Saga_execute_success [OF fwd] markCompleted_def)
qed

text \<open>
  The two-step saga whose actions succeed, and the saga with no steps.
\<close>

theorem all_actions_succeed_completes_witness:
  "first_failure (steps ok_saga) (run_context Map.empty ''run-1'') = None \<and>
   (case Saga_execute ok_saga Map.empty ''run-1'' of (sg', c, out) \<Rightarrow>
      status c = COMPLETED \<and> length (executedSteps c) = 2 \<and>
      compensations_invoked out = [] \<and> actions_invoked out = [''A'', ''B'']) \<and>
   first_failure (steps (new_Saga ''Empty'')) (run_context Map.empty ''run-2'') = None \<and>
   (case Saga_execute (new_Saga ''Empty'') Map.empty ''run-2'' of (sg', c, out) \<Rightarrow>
      status c = COMPLETED \<and> length (executedSteps c) = 0 \<and> compensations_invoked out = [])"
proof -
  have a: "first_failure (steps ok_saga) (run_context Map.empty ''run-1'') = None"
    by (simp add: example_defs)
  have b: "first_failure (steps (new_Saga ''Empty'')) (run_context Map.empty ''run-2'') = None"
    by (simp add: example_defs)
  show ?thesis
    using all_actions_succeed_completes [OF a] all_actions_succeed_completes [OF b] a b
    by (simp add: example_defs split: prod.splits)
qed



section \<open>The step\<close>




text \<open>
  C5 (the code departs from the claim). Step B has executed and its compensation throws.
  \<open>SagaStep.compensate\<close> throws the error again, but the error attribute of the step is
  still empty afterwards, and \<open>compensated\<close> is still false: its catch block logs and
  throws, and does not store the error as the catch block of \<open>execute\<close> does.
\<close>

theorem compensate_does_not_capture_error:
  "executed (fst (snd refund_step_run)) \<and>
   (case SagaStep_compensate (fst (snd refund_step_run)) (fst (snd (snd refund_step_run))) of
      (r, s', c', out) \<Rightarrow>
        r = Threw (Error ''refund failed'') \<and> SagaStep_getError s' = None \<and> \<not> compensated s' \<and>
        out = [Log_compensating_step ''B'', Log_compensation_failed ''B'' ''refund failed''])"
  by (simp add: refund_step_run_def example_defs run_defs SagaStep_getError_def)


section \<open>The orchestrator\<close>

text \<open>
  C6. \<open>executeSaga\<close> with a name that is not registered throws the error
  \<open>Saga not found: name\<close>; the orchestrator, its history included, is as before and
  nothing is printed: no context has been created. With a registered name it returns the
  context of the run, never an error: the status is COMPLETED with no error, or COMPENSATED
  with the error of the failed action, and one history record with that status has been
  pushed (the oldest record is then dropped if the history was full).
\<close>

theorem executeSaga_outcomes:
  "(map_of (sagas orc) nm = None \<longrightarrow>
      executeSaga nm initialData sid elapsed now orc =
        (Threw (Error (''Saga not found: '' @ nm)), orc, []))
   \<and> (\<forall>sg. map_of (sagas orc) nm = Some sg \<longrightarrow>
        (\<exists>c orc' out.
           executeSaga nm initialData sid elapsed now orc = (Returned c, orc', out) \<and>
           c = fst (snd (Saga_execute sg initialData sid)) \<and>
           ((getStatus c = COMPLETED \<and> getError c = None) \<or>
            (getStatus c = COMPENSATED \<and> (\<exists>e. getError c = Some e))) \<and>
           executionHistory orc' =
             (if length (executionHistory orc) + 1 > maxHistorySize orc
              then tl (executionHistory orc @ [new_record nm c elapsed now])
              else executionHistory orc @ [new_record nm c elapsed now]) \<and>
           rec_status (new_record nm c elapsed now) = getStatus c))"
proof (intro conjI allI impI)
  assume "map_of (sagas orc) nm = None"
  then show "executeSaga nm initialData sid elapsed now orc =
        (Threw (Error (''Saga not found: '' @ nm)), orc, [])"
    by (simp add: executeSaga_def)
next
  fix sg assume reg: "map_of (sagas orc) nm = Some sg"
  obtain sg' c out where run: "Saga_execute sg initialData sid = (sg', c, out)"
    by (metis prod_cases3)
  from Saga_execute_outcome [of sg initialData sid]
  have st: "(getStatus c = COMPLETED \<and> getError c = None) \<or>
            (getStatus c = COMPENSATED \<and> (\<exists>e. getError c = Some e))"
    by (simp add: run getStatus_def getError_def)
  show "\<exists>c orc' out.
           executeSaga nm initialData sid elapsed now orc = (Returned c, orc', out) \<and>
           c = fst (snd (Saga_execute sg initialData sid)) \<and>
           ((getStatus c = COMPLETED \<and> getError c = None) \<or>
            (getStatus c = COMPENSATED \<and> (\<exists>e. getError c = Some e))) \<and>
           executionHistory orc' =
             (if length (executionHistory orc) + 1 > maxHistorySize orc
              then tl (executionHistory orc @ [new_record nm c elapsed now])
              else executionHistory orc @ [new_record nm c elapsed now]) \<and>
           rec_status (new_record nm c elapsed now) = getStatus c"
    using st
    by (simp add: executeSaga_def reg run recordExecution_def Let_def new_record_def)
qed

text \<open>
  An orchestrator with the saga A, B, C registered: an unknown name, and a run that fails
  and is rolled back.
\<close>

theorem executeSaga_outcomes_witness:
  "map_of (sagas abc_orchestrator) ''Unknown'' = None \<and>
   executeSaga ''Unknown'' Map.empty ''run-1'' 5 7 abc_orchestrator =
     (Threw (Error ''Saga not found: Unknown''), abc_orchestrator, []) \<and>
   map_of (sagas abc_orchestrator) ''ABC'' = Some abc_saga \<and>
   (\<exists>c orc' out.
      executeSaga ''ABC'' Map.empty ''run-1'' 5 7 abc_orchestrator = (Returned c, orc', out) \<and>
      getStatus c = COMPENSATED \<and> getError c = Some (Error ''insufficient stock'') \<and>
      map rec_status (executionHistory orc') = [COMPENSATED])"
proof -
  have a: "map_of (sagas abc_orchestrator) ''Unknown'' = None"
    by (simp add: abc_orchestrator_def registerSaga_def new_SagaOrchestrator_def)
  have b: "map_of (sagas abc_orchestrator) ''ABC'' = Some abc_saga"
    by (simp add: abc_orchestrator_def registerSaga_def new_SagaOrchestrator_def)
  have h: "executionHistory abc_orchestrator = []" "maxHistorySize abc_orchestrator = 100"
    by (simp_all add: abc_orchestrator_def registerSaga_def new_SagaOrchestrator_def)
  have run: "getStatus (fst (snd (Saga_execute abc_saga Map.empty ''run-1''))) = COMPENSATED"
    "getError (fst (snd (Saga_execute abc_saga Map.empty ''run-1''))) = Some (Error ''insufficient stock'')"
    by (simp_all add: example_defs run_defs getStatus_def getError_def)
  from executeSaga_outcomes [of abc_orchestrator "''Unknown''" Map.empty "''run-1''" 5 7] a
  have first: "executeSaga ''Unknown'' Map.empty ''run-1'' 5 7 abc_orchestrator =
     (Threw (Error ''Saga not found: Unknown''), abc_orchestrator, [])"
    by simp
  from executeSaga_outcomes [of abc_orchestrator "''ABC''" Map.empty "''run-1''" 5 7] b
  obtain c orc' out where
    ex: "executeSaga ''ABC'' Map.empty ''run-1'' 5 7 abc_orchestrator = (Returned c, orc', out)"
    and c: "c = fst (snd (Saga_execute abc_saga Map.empty ''run-1''))"
    and hist: "executionHistory orc' =
             (if length (executionHistory abc_orchestrator) + 1 > maxHistorySize abc_orchestrator
              then tl (executionHistory abc_orchestrator @ [new_record ''ABC'' c 5 7])
              else executionHistory abc_orchestrator @ [new_record ''ABC'' c 5 7])"
    and rs: "rec_status (new_record ''ABC'' c 5 7) = getStatus c"
    by blast
  have hs: "map rec_status (executionHistory orc') = [COMPENSATED]"
    using hist rs run(1) by (simp add: h c)
  have cs: "getStatus c = COMPENSATED" "getError c = Some (Error ''insufficient stock'')"
    using run by (simp_all add: c)
  from ex cs hs have "\<exists>c orc' out.
      executeSaga ''ABC'' Map.empty ''run-1'' 5 7 abc_orchestrator = (Returned c, orc', out) \<and>
      getStatus c = COMPENSATED \<and> getError c = Some (Error ''insufficient stock'') \<and>
      map rec_status (executionHistory orc') = [COMPENSATED]"
    by (intro exI conjI)
  with a b first show ?thesis by simp
qed


section \<open>The status of a context\<close>

text \<open>
  C7 (as amended). The context of a saga run takes on the statuses PENDING, IN_PROGRESS,
  COMPLETED, or PENDING, IN_PROGRESS, FAILED, COMPENSATING, COMPENSATED, in this order: a
  path of the state machine, ending in one of its two terminal states, which is the status
  of the context returned. This is a property of the calls \<open>Saga.execute\<close> makes; the
  context itself accepts any status at any time.
\<close>

theorem saga_run_follows_state_machine:
  "case Saga_execute sg initialData sid of (sg', c, out) \<Rightarrow>
     (statusTrail c = [PENDING, IN_PROGRESS, COMPLETED] \<or>
      statusTrail c = [PENDING, IN_PROGRESS, FAILED, COMPENSATING, COMPENSATED]) \<and>
     follows_state_machine (statusTrail c) \<and>
     status c = last (statusTrail c)"
proof -
  obtain r ss' c' out where
    fwd: "execute_steps (steps sg) (run_context initialData sid) = (r, ss', c', out)"
    by (metis prod_cases4)
  note inv = execute_steps_invariant [OF fwd]
  show ?thesis
  proof (cases r)
    case None
    show ?thesis
      using inv
      by (simp add: Saga_execute_success [OF fwd [unfolded None]] markCompleted_def
            follows_state_machine_def)
  next
    case (Some e)
    obtain sg' c'' out' where
      cmp: "Saga_compensate (sg\<lparr>steps := ss'\<rparr>) (markFailed e c') = (sg', c'', out')"
      by (metis prod_cases3)
    note f = Saga_compensate_facts [OF cmp]
    show ?thesis
      using inv f(4,5)
      by (simp add: Saga_execute_failure [OF fwd [unfolded Some] cmp] markFailed_def
            follows_state_machine_def)
  qed
qed

text \<open>
  The claim for every sequence of context operations: after \<open>markStarted\<close> and
  \<open>markCompleted\<close>, \<open>setStatus\<close> takes the context from COMPLETED back to PENDING.
\<close>

theorem setStatus_leaves_state_machine:
  "statusTrail (setStatus PENDING (markCompleted (markStarted (new_SagaContext Map.empty ''run-1'')))) =
     [PENDING, IN_PROGRESS, COMPLETED, PENDING] \<and>
   \<not> follows_state_machine
       (statusTrail (setStatus PENDING (markCompleted (markStarted (new_SagaContext Map.empty ''run-1'')))))"
  by (simp add: follows_state_machine_def setStatus_def markCompleted_def markStarted_def
        new_SagaContext_def)


section \<open>History and statistics\<close>

text \<open>
  C8. From an orchestrator whose history is within its bound (a new orchestrator has an
  empty history and the bound 100), after any sequence of recorded executions the history
  holds the most recent \<open>maxHistorySize\<close> records of all that were pushed, in insertion
  order, the oldest having been dropped first. When at least \<open>maxHistorySize\<close> executions
  were recorded, \<open>getExecutionHistory(maxHistorySize)\<close> has that length and is exactly
  the last \<open>maxHistorySize\<close> of them, in order; the same holds for every limit \<open>n\<close>
  from 1 to the bound once \<open>n\<close> executions were recorded. \<open>getExecutionHistory\<close> never
  returns more records than are stored.
\<close>

theorem history_is_bounded_fifo:
  assumes "length (executionHistory orc) \<le> maxHistorySize orc"
  shows "executionHistory (foldl record_call orc xs) =
           drop (length (executionHistory orc) + length xs - maxHistorySize orc)
             (executionHistory orc @ map recorded xs)
    \<and> (maxHistorySize orc \<le> length xs \<longrightarrow>
         getExecutionHistory (foldl record_call orc xs) (int (maxHistorySize orc)) =
           drop (length xs - maxHistorySize orc) (map recorded xs)
         \<and> length (getExecutionHistory (foldl record_call orc xs) (int (maxHistorySize orc))) =
           maxHistorySize orc)
    \<and> (\<forall>n. 0 < n \<and> n \<le> maxHistorySize orc \<and> n \<le> length xs \<longrightarrow>
         getExecutionHistory (foldl record_call orc xs) (int n) =
           drop (length xs - n) (map recorded xs))
    \<and> length (getExecutionHistory (foldl record_call orc xs) limit) \<le>
          length (executionHistory (foldl record_call orc xs))
    \<and> maxHistorySize new_SagaOrchestrator = 100
    \<and> executionHistory new_SagaOrchestrator = []"
proof -
  let ?H = "executionHistory (foldl record_call orc xs)"
  let ?h = "executionHistory orc" and ?R = "map recorded xs"
  note w = window [OF assms, of xs]
  have a: "maxHistorySize orc \<le> length xs \<Longrightarrow>
      ?H = drop (length xs - maxHistorySize orc) ?R"
    using w assms by simp
  have b: "maxHistorySize orc \<le> length xs \<Longrightarrow>
     getExecutionHistory (foldl record_call orc xs) (int (maxHistorySize orc)) = ?H"
    unfolding getExecutionHistory_def
    by (rule slice_from_all) (simp add: a)
  have c: "length (getExecutionHistory (foldl record_call orc xs) limit) \<le> length ?H"
    by (simp add: getExecutionHistory_def slice_from_def Let_def)
  have d: "getExecutionHistory (foldl record_call orc xs) (int n) = drop (length xs - n) ?R"
    if n: "0 < n" "n \<le> maxHistorySize orc" "n \<le> length xs" for n
  proof -
    let ?b = "length ?h + length xs - maxHistorySize orc"
    have H: "?H = drop ?b (?h @ ?R)"
      using w by simp
    have len: "n \<le> length ?H"
      using n assms by (simp add: H)
    have "getExecutionHistory (foldl record_call orc xs) (int n) = drop (length ?H - n) ?H"
      unfolding getExecutionHistory_def using n(1) len by (rule slice_from_last)
    also have "\<dots> = drop (length ?H - n) (drop ?b (?h @ ?R))"
      by (rule arg_cong [where f = "drop (length ?H - n)", OF H])
    also have "\<dots> = drop (length ?H - n + ?b) (?h @ ?R)"
      by (simp only: drop_drop)
    also have "length ?H - n + ?b = length ?h + (length xs - n)"
      using n assms by (simp add: H)
    also have "drop (length ?h + (length xs - n)) (?h @ ?R) = drop (length xs - n) ?R"
      by simp
    finally show ?thesis .
  qed
  show ?thesis
    using w a b c d by (simp add: new_SagaOrchestrator_def)
qed

text \<open>
  A new orchestrator and 101 recorded executions: \<open>getExecutionHistory(100)\<close> is all of
  them but the first.
\<close>

theorem history_is_bounded_fifo_witness:
  "length (executionHistory new_SagaOrchestrator) \<le> maxHistorySize new_SagaOrchestrator \<and>
   maxHistorySize new_SagaOrchestrator \<le> length (numbered_recordings 101) \<and>
   getExecutionHistory (foldl record_call new_SagaOrchestrator (numbered_recordings 101)) 100 =
     drop 1 (map recorded (numbered_recordings 101)) \<and>
   length (getExecutionHistory (foldl record_call new_SagaOrchestrator (numbered_recordings 101)) 100) = 100"
proof -
  have a: "length (executionHistory new_SagaOrchestrator) \<le> maxHistorySize new_SagaOrchestrator"
    by (simp add: new_SagaOrchestrator_def)
  have b: "maxHistorySize new_SagaOrchestrator = 100" "length (numbered_recordings 101) = 101"
    by (simp_all add: new_SagaOrchestrator_def numbered_recordings_def)
  show ?thesis
    using history_is_bounded_fifo [OF a, of "numbered_recordings 101"] a b
    by simp
qed

text \<open>
  The bound set to 2 and three executions recorded: the first record is gone and the two
  later ones are returned in the order they were recorded.
\<close>

lemma capacity_two_example:
  "map rec_duration
     (getExecutionHistory
        (foldl record_call (new_SagaOrchestrator\<lparr>maxHistorySize := 2\<rparr>) (numbered_recordings 3)) 2) =
   [1, 2]"
  by (simp add: numbered_recordings_def upt_rec record_call_def recordExecution_def new_record_def
        new_SagaOrchestrator_def getExecutionHistory_def slice_from_def Let_def)

text \<open>
  C9. In every state of the orchestrator the counts of \<open>getStatistics().byStatus\<close> sum
  to \<open>getStatistics().totalExecutions\<close>, which is the length of the retained history.
\<close>

theorem byStatus_sums_to_history_length:
  "sum_list (map snd (byStatus (getStatistics orc))) = totalExecutions (getStatistics orc) \<and>
   totalExecutions (getStatistics orc) = length (executionHistory orc)"
proof -
  obtain bst bsg t where f: "foldl tally ([], [], 0) (executionHistory orc) = (bst, bsg, t)"
    by (cases "foldl tally ([], [], 0) (executionHistory orc)") auto
  from tally_sum [OF f] show ?thesis
    by (simp add: getStatistics_def f)
qed

text \<open>
  C10. \<open>getExecutionHistory(0)\<close> returns the whole retained history, in order: the slice
  starts at \<open>-0\<close>, which is position 0.
\<close>

theorem getExecutionHistory_zero_is_whole_history:
  "getExecutionHistory orc 0 = executionHistory orc"
  by (simp add: getExecutionHistory_def slice_from_def)

end
